theory Spec2Isabelle
  imports Complex_Main
begin

section \<open>Python values and the clock\<close>

text \<open>
  The values that travel through \<^verbatim>\<open>nodes/interface.py\<close>: \<^verbatim>\<open>None\<close>, a \<^verbatim>\<open>str\<close>
  (Python 2 byte string), or any other object, which the node only ever formats with
  \<^verbatim>\<open>%s\<close> and which is therefore carried as its \<^verbatim>\<open>str()\<close> text.
\<close>

datatype pyval = PyNone | PyStr string | PyObj string

fun py_str :: "pyval \<Rightarrow> string" where
  "py_str PyNone = ''None''"
| "py_str (PyStr s) = s"
| "py_str (PyObj s) = s"

text \<open>
  \<^verbatim>\<open>rospy.get_time()\<close> is read anew at every evaluation. A call of a method receives
  the readings it will see as a function: \<open>clk k\<close> is what the \<open>k\<close>-th read inside the
  call returns. A call that happens at one instant \<open>now\<close> is the constant clock
  \<open>clock_at now\<close>. A reading is a double, taken as the real number it stands for.
\<close>

type_synonym clock = "nat \<Rightarrow> real"

definition clock_at :: "real \<Rightarrow> clock" where
  "clock_at now = (\<lambda>k. now)"

text \<open>
  The difference of two doubles is the double nearest to the exact difference. That
  rounding is a parameter \<open>rnd\<close> of the model: \<^verbatim>\<open>a - b\<close> on doubles is
  \<open>rnd (a - b)\<close>. The properties below that depend on it use only that rounding is
  monotone and leaves a whole number of seconds unchanged.
\<close>

type_synonym rounding = "real \<Rightarrow> real"

section \<open>The class \<^verbatim>\<open>Messages\<close>\<close>

text \<open>
  An entry of \<^verbatim>\<open>message_structure\<close> is \<^verbatim>\<open>None\<close>, one name, or a list (or tuple) of
  names.
\<close>

datatype entry = Blank | Single string | Group "string list"

text \<open>
  The fields set by \<^verbatim>\<open>Messages.__init__\<close>. The lock makes every method body one
  atomic step, so a run of the object is a sequence of calls. \<^verbatim>\<open>messages_named\<close> is the
  dict, \<^verbatim>\<open>messages_queue\<close> the deque with its left end first.
\<close>

record messages =
  message_structure :: "entry list"
  messages_named :: "string \<rightharpoonup> pyval"
  messages_queue :: "(pyval \<times> real) list"
  message_display_time :: int

definition Messages_init :: "int \<Rightarrow> entry list \<Rightarrow> messages" where
  "Messages_init display_time args =
     \<lparr> message_structure = args,
       messages_named = Map.empty,
       messages_queue = [],
       message_display_time = display_time \<rparr>"

text \<open>
  \<^verbatim>\<open>messages_put\<close>: the loop over the \<open>(message, name)\<close> pairs. \<open>k\<close> counts the clock
  reads made so far in the call; only an anonymous message reads the clock.
\<close>

fun messages_put_loop ::
  "clock \<Rightarrow> nat \<Rightarrow> (pyval \<times> string option) list \<Rightarrow> messages \<Rightarrow> messages" where
  "messages_put_loop clk k [] s = s"
| "messages_put_loop clk k ((message, None) # rest) s =
     messages_put_loop clk (Suc k) rest
       (s\<lparr>messages_queue := messages_queue s @ [(message, clk k)]\<rparr>)"
| "messages_put_loop clk k ((message, Some name) # rest) s =
     messages_put_loop clk k rest
       (s\<lparr>messages_named := (messages_named s)(name \<mapsto> message)\<rparr>)"

definition messages_put ::
  "clock \<Rightarrow> (pyval \<times> string option) list \<Rightarrow> messages \<Rightarrow> messages" where
  "messages_put clk msgs s = messages_put_loop clk 0 msgs s"

definition message_put :: "clock \<Rightarrow> pyval \<Rightarrow> string option \<Rightarrow> messages \<Rightarrow> messages" where
  "message_put clk message name s = messages_put clk [(message, name)] s"

text \<open>
  \<^verbatim>\<open>messages_flush\<close> binds the local name \<^verbatim>\<open>messages\<close> to an empty dict and returns.
\<close>

definition messages_flush :: "messages \<Rightarrow> messages" where
  "messages_flush s = (let messages = (Map.empty :: string \<rightharpoonup> pyval) in s)"

text \<open>
  \<^verbatim>\<open>clean_queue\<close>: while the queue is not empty and the head is older than
  \<^verbatim>\<open>message_display_time / 1000\<close>, pop it. The node runs under Python 2 (PySide, rospy),
  where \<^verbatim>\<open>/\<close> on the integer parameter is floor division. The clock is read once per
  test of a non-empty queue, and the age is the rounded difference of two doubles,
  compared with the integer exactly.
\<close>

definition display_seconds :: "messages \<Rightarrow> int" where
  "display_seconds s = message_display_time s div 1000"

fun clean_queue_loop ::
  "rounding \<Rightarrow> clock \<Rightarrow> nat \<Rightarrow> int \<Rightarrow> (pyval \<times> real) list \<Rightarrow> (pyval \<times> real) list" where
  "clean_queue_loop rnd clk k limit [] = []"
| "clean_queue_loop rnd clk k limit ((message, t) # rest) =
     (if rnd (clk k - t) > of_int limit
      then clean_queue_loop rnd clk (Suc k) limit rest
      else (message, t) # rest)"

definition clean_queue :: "rounding \<Rightarrow> clock \<Rightarrow> messages \<Rightarrow> messages" where
  "clean_queue rnd clk s =
     s\<lparr>messages_queue := clean_queue_loop rnd clk 0 (display_seconds s) (messages_queue s)\<rparr>"

text \<open>
  What \<^verbatim>\<open>render\<close> does to the image is the sequence of its \<^verbatim>\<open>painter.drawText\<close>
  calls (all with the white pen set once before them).
\<close>

datatype draw_call = DrawText int int pyval

text \<open>
  \<^verbatim>\<open>int(x)\<close> of a float truncates toward zero. The products \<^verbatim>\<open>width * .05\<close> and
  \<^verbatim>\<open>height * .9\<close> are taken exactly. For the non-negative sizes an image can have
  the float product truncates to the same integer: the float constants lie above
  \<open>1/20\<close> and \<open>9/10\<close> by less than \<open>10\<^sup>-\<^sup>1\<^sup>6\<close>, and a whole product is a float.
\<close>

definition py_int :: "real \<Rightarrow> int" where
  "py_int x = (if x < 0 then \<lceil>x\<rceil> else \<lfloor>x\<rfloor>)"

definition column_width :: int where
  "column_width = 250"

definition top_of :: "int \<Rightarrow> int" where
  "top_of height = py_int (of_int height * (5 / 100))"

definition bottom_of :: "int \<Rightarrow> int" where
  "bottom_of height = py_int (of_int height * (9 / 10))"

fun entry_names :: "entry \<Rightarrow> string list" where
  "entry_names Blank = []"
| "entry_names (Single name) = [name]"
| "entry_names (Group names) = names"

definition named_value :: "(string \<rightharpoonup> pyval) \<Rightarrow> string \<Rightarrow> pyval" where
  "named_value named name =
     (let value = (case named name of None \<Rightarrow> PyStr ''-'' | Some v \<Rightarrow> v)
      in if value = PyNone then PyStr ''-'' else value)"

definition format_row :: "string \<Rightarrow> pyval \<Rightarrow> string" where
  "format_row name value = name @ '': '' @ py_str value"

text \<open>The inner loop over the names of one entry: the calls made and the new \<open>y\<close>.\<close>

fun draw_entry ::
  "(string \<rightharpoonup> pyval) \<Rightarrow> int \<Rightarrow> int \<Rightarrow> string list \<Rightarrow> draw_call list \<times> int" where
  "draw_entry named x y [] = ([], y)"
| "draw_entry named x y (name # rest) =
     (let (calls, y') = draw_entry named x (y + 15) rest
      in (DrawText x y (PyStr (format_row name (named_value named name))) # calls, y'))"

text \<open>The outer loop over \<^verbatim>\<open>message_structure\<close>.\<close>

fun draw_structure ::
  "(string \<rightharpoonup> pyval) \<Rightarrow> int \<Rightarrow> int \<Rightarrow> int \<Rightarrow> entry list \<Rightarrow> draw_call list" where
  "draw_structure named height x y [] = []"
| "draw_structure named height x y (e # es) =
     (let (calls, y1) = draw_entry named x y (entry_names e);
          y2 = y1 + 5
      in if y2 > bottom_of height
         then calls @ draw_structure named height (x + column_width) (top_of height) es
         else calls @ draw_structure named height x y2 es)"

text \<open>The loop over the anonymous queue.\<close>

fun draw_queue :: "int \<Rightarrow> int \<Rightarrow> int \<Rightarrow> (pyval \<times> real) list \<Rightarrow> draw_call list" where
  "draw_queue height x y [] = []"
| "draw_queue height x y ((text, time) # rest) =
     DrawText x y text #
       (let y1 = y + 15
        in if y1 > bottom_of height
           then draw_queue height (x - column_width) (top_of height) rest
           else draw_queue height x y1 rest)"

text \<open>
  \<^verbatim>\<open>render(image)\<close>: \<open>width\<close> and \<open>height\<close> are those of the image. The result is the
  object after the call and the calls made on the painter.
\<close>

definition render ::
  "rounding \<Rightarrow> clock \<Rightarrow> int \<Rightarrow> int \<Rightarrow> messages \<Rightarrow> messages \<times> draw_call list" where
  "render rnd clk width height s =
     (let s1 = clean_queue rnd clk s
      in (s1,
          draw_structure (messages_named s1) height
            (py_int (of_int width * (5 / 100))) (top_of height) (message_structure s1)
          @ draw_queue height (width - column_width) (top_of height) (messages_queue s1)))"

section \<open>Runs of a \<^verbatim>\<open>Messages\<close> object\<close>

datatype messages_call =
    Call_messages_put clock "(pyval \<times> string option) list"
  | Call_message_put clock pyval "string option"
  | Call_messages_flush
  | Call_clean_queue clock
  | Call_render clock int int

fun call :: "rounding \<Rightarrow> messages_call \<Rightarrow> messages \<Rightarrow> messages" where
  "call rnd (Call_messages_put clk msgs) s = messages_put clk msgs s"
| "call rnd (Call_message_put clk message name) s = message_put clk message name s"
| "call rnd Call_messages_flush s = messages_flush s"
| "call rnd (Call_clean_queue clk) s = clean_queue rnd clk s"
| "call rnd (Call_render clk width height) s = fst (render rnd clk width height s)"

fun run :: "rounding \<Rightarrow> messages_call list \<Rightarrow> messages \<Rightarrow> messages" where
  "run rnd [] s = s"
| "run rnd (c # cs) s = run rnd cs (call rnd c s)"

text \<open>
  A history in which every call happens at one instant: the operation without its clock,
  and the time of the call.
\<close>

datatype messages_op =
    Op_messages_put "(pyval \<times> string option) list"
  | Op_message_put pyval "string option"
  | Op_messages_flush
  | Op_clean_queue
  | Op_render int int

fun at_time :: "real \<Rightarrow> messages_op \<Rightarrow> messages_call" where
  "at_time t (Op_messages_put msgs) = Call_messages_put (clock_at t) msgs"
| "at_time t (Op_message_put message name) = Call_message_put (clock_at t) message name"
| "at_time t Op_messages_flush = Call_messages_flush"
| "at_time t Op_clean_queue = Call_clean_queue (clock_at t)"
| "at_time t (Op_render width height) = Call_render (clock_at t) width height"

definition timed :: "(real \<times> messages_op) list \<Rightarrow> messages_call list" where
  "timed h = map (\<lambda>(t, operation). at_time t operation) h"

text \<open>The \<open>(message, name)\<close> pairs a call puts, and those of a run, in order.\<close>

fun puts_of :: "messages_call \<Rightarrow> (pyval \<times> string option) list" where
  "puts_of (Call_messages_put clk msgs) = msgs"
| "puts_of (Call_message_put clk message name) = [(message, name)]"
| "puts_of _ = []"

text \<open>The value of the most recent put for \<open>name\<close> among the pairs, if there is one.\<close>

fun last_put :: "string \<Rightarrow> (pyval \<times> string option) list \<Rightarrow> pyval option" where
  "last_put name [] = None"
| "last_put name ((message, n) # rest) =
     (case last_put name rest of
        Some v \<Rightarrow> Some v
      | None \<Rightarrow> if n = Some name then Some message else None)"

section \<open>The class \<^verbatim>\<open>UInode\<close>\<close>

text \<open>
  The \<^verbatim>\<open>sensor_msgs/Image\<close> message as \<^verbatim>\<open>on_video_update\<close> reads it, and the Qt
  images built from it. \<^verbatim>\<open>rgbSwapped\<close> exchanges the red and blue channels; applied
  twice it gives the image back, so an image carries a flag.
\<close>

record image_msg =
  msg_data :: string
  msg_width :: int
  msg_height :: int

record qimage =
  img_data :: string
  img_width :: int
  img_height :: int
  img_swapped :: bool

definition QImage_RGB888 :: "string \<Rightarrow> int \<Rightarrow> int \<Rightarrow> qimage" where
  "QImage_RGB888 d w h = \<lparr> img_data = d, img_width = w, img_height = h, img_swapped = False \<rparr>"

definition rgbSwapped :: "qimage \<Rightarrow> qimage" where
  "rgbSwapped i = i\<lparr>img_swapped := \<not> img_swapped i\<rparr>"

text \<open>
  A \<^verbatim>\<open>QPixmap\<close> is made from an image, or made with a size and filled with a colour.
\<close>

datatype qpixmap = FromImage qimage | Filled int int "int \<times> int \<times> int"

fun pixmap_width :: "qpixmap \<Rightarrow> int" where
  "pixmap_width (FromImage i) = img_width i"
| "pixmap_width (Filled w h c) = w"

fun pixmap_height :: "qpixmap \<Rightarrow> int" where
  "pixmap_height (FromImage i) = img_height i"
| "pixmap_height (Filled w h c) = h"

text \<open>
  \<^verbatim>\<open>utils.drone.DroneController\<close> is not part of the file. The node reads three things
  of it, and calls it; what it reads is a record, what it calls is a list of effects
  (together with the publication on \<^verbatim>\<open>/apctrl\<close>). \<^verbatim>\<open>send_vel\<close> is always called with
  one keyword argument.
\<close>

record drone_controller =
  is_online :: bool
  status_readable :: pyval
  battery :: pyval

datatype vel_arg = X | Y | Z | Yaw

datatype effect =
    Reset
  | Takeoff
  | Land
  | Hover
  | Send_vel vel_arg int
  | Ap_publish

datatype qt_key =
    Key_R | Key_T | Key_L | Key_H | Key_A | Key_D | Key_W | Key_S | Key_Q | Key_E
  | Key_BracketRight | Key_BracketLeft | Key_Y
  | Key_other nat

record key_event =
  ev_key :: qt_key
  ev_isAutoRepeat :: bool

datatype error = AttributeError

text \<open>
  The attributes of the node that its handlers use. \<^verbatim>\<open>self.messages\<close> and
  \<^verbatim>\<open>self.image\<close> are \<open>ui_messages\<close> and \<open>ui_image\<close>; \<^verbatim>\<open>communication_since_timer\<close>
  is false until \<^verbatim>\<open>on_video_update\<close> sets it.
\<close>

record ui_node =
  swap_red_blue :: bool
  controller :: "drone_controller option"
  ui_messages :: messages
  ui_image :: "qimage option"
  communication_since_timer :: bool

text \<open>The module's \<^verbatim>\<open>grid\<close>.\<close>

definition grid :: "entry list" where
  "grid = [Single ''drone.status'', Blank, Single ''drone.battery'', Blank,
           Group [''tgt.x'', ''tgt.y'', ''tgt.z'']]"

definition UInode_init :: "bool \<Rightarrow> drone_controller \<Rightarrow> int \<Rightarrow> ui_node" where
  "UInode_init swap c display_time =
     \<lparr> swap_red_blue = swap,
       controller = Some c,
       ui_messages = Messages_init display_time grid,
       ui_image = None,
       communication_since_timer = False \<rparr>"

subsection \<open>\<^verbatim>\<open>messages_named_template\<close>\<close>

text \<open>
  The pattern \<^verbatim>\<open>((?P<name>[a-zA-Z0-9_-]+)::)?(?P<message>.*)\<close>, matched at the start
  of the string by \<^verbatim>\<open>match\<close>. The class \<^verbatim>\<open>[a-zA-Z0-9_-]\<close>:
\<close>

definition is_name_char :: "char \<Rightarrow> bool" where
  "is_name_char c =
     (let n = (of_char c :: nat)
      in (of_char CHR ''a'' \<le> n \<and> n \<le> of_char CHR ''z'')
       \<or> (of_char CHR ''A'' \<le> n \<and> n \<le> of_char CHR ''Z'')
       \<or> (of_char CHR ''0'' \<le> n \<and> n \<le> of_char CHR ''9'')
       \<or> c = CHR ''_'' \<or> c = CHR ''-'')"

text \<open>
  The greedy \<^verbatim>\<open>+\<close> takes the longest run of class characters and gives characters
  back one at a time until \<^verbatim>\<open>::\<close> follows: \<open>try_name n\<close> tries the names of length
  \<open>n\<close>, \<open>n - 1\<close>, ..., \<open>1\<close> and returns the name and what follows the \<^verbatim>\<open>::\<close>.
\<close>

fun try_name :: "nat \<Rightarrow> string \<Rightarrow> (string \<times> string) option" where
  "try_name 0 s = None"
| "try_name (Suc n) s =
     (if take 2 (drop (Suc n) s) = ''::''
      then Some (take (Suc n) s, drop (Suc n + 2) s)
      else try_name n s)"

text \<open>\<^verbatim>\<open>.*\<close> without \<^verbatim>\<open>DOTALL\<close>: the longest run of characters other than a newline.\<close>

definition dot_star :: "string \<Rightarrow> string" where
  "dot_star s = takeWhile (\<lambda>c. c \<noteq> CHR 0x0A) s"

text \<open>
  The match and its \<^verbatim>\<open>groupdict()\<close>: \<open>(name, message)\<close>. The optional group is tried
  first; when it fails it is skipped and \<^verbatim>\<open>name\<close> is \<^verbatim>\<open>None\<close>. The pattern matches
  every string.
\<close>

definition messages_named_template :: "string \<Rightarrow> string option \<times> string" where
  "messages_named_template s =
     (case try_name (length (takeWhile is_name_char s)) s of
        Some (name, rest) \<Rightarrow> (Some name, dot_star rest)
      | None \<Rightarrow> (None, dot_star s))"

subsection \<open>The handlers\<close>

definition on_ui_request :: "clock \<Rightarrow> string \<Rightarrow> ui_node \<Rightarrow> ui_node" where
  "on_ui_request clk message_data s =
     (let (name, message) = messages_named_template message_data
      in s\<lparr>ui_messages := message_put clk (PyStr message) name (ui_messages s)\<rparr>)"

definition on_video_update :: "image_msg \<Rightarrow> ui_node \<Rightarrow> ui_node" where
  "on_video_update d s =
     (let image = QImage_RGB888 (msg_data d) (msg_width d) (msg_height d);
          image = (if swap_red_blue s then rgbSwapped image else image)
      in s\<lparr>communication_since_timer := True, ui_image := Some image\<rparr>)"

text \<open>
  \<^verbatim>\<open>on_redraw\<close>: the pixmap chosen, the calls painted on it, and the size the window
  is resized to. The two puts are named, so they read no clock.
\<close>

record redraw_output =
  out_pixmap :: qpixmap
  out_drawn :: "draw_call list"
  out_resize :: "int \<times> int"

definition placeholder :: qpixmap where
  "placeholder = Filled 640 360 (50, 50, 50)"

definition on_redraw ::
  "rounding \<Rightarrow> clock \<Rightarrow> ui_node \<Rightarrow> error + (ui_node \<times> redraw_output)" where
  "on_redraw rnd clk s =
     (case controller s of
        None \<Rightarrow> Inl AttributeError
      | Some c \<Rightarrow>
          (let image =
                 (case ui_image s of
                    Some i \<Rightarrow> if is_online c then FromImage i else placeholder
                  | None \<Rightarrow> placeholder);
               m1 = messages_put clk
                      [(status_readable c, Some ''drone.status''),
                       (battery c, Some ''drone.battery'')]
                      (ui_messages s);
               (m2, calls) = render rnd clk (pixmap_width image) (pixmap_height image) m1
           in Inr (s\<lparr>ui_messages := m2\<rparr>,
                   \<lparr> out_pixmap = image, out_drawn = calls,
                     out_resize = (pixmap_width image, pixmap_height image) \<rparr>)))"

text \<open>\<^verbatim>\<open>gen_keymap\<close>: the dict from keys to actions of \<open>(ax, e)\<close>.\<close>

fun gen_keymap :: "qt_key \<Rightarrow> (int \<Rightarrow> key_event \<Rightarrow> effect list) option" where
  "gen_keymap Key_R = Some (\<lambda>ax e. [Reset])"
| "gen_keymap Key_T = Some (\<lambda>ax e. [Takeoff])"
| "gen_keymap Key_L = Some (\<lambda>ax e. [Land])"
| "gen_keymap Key_H = Some (\<lambda>ax e. [Hover])"
| "gen_keymap Key_A = Some (\<lambda>ax e. [Send_vel Y ax])"
| "gen_keymap Key_D = Some (\<lambda>ax e. [Send_vel Y (- ax)])"
| "gen_keymap Key_W = Some (\<lambda>ax e. [Send_vel X ax])"
| "gen_keymap Key_S = Some (\<lambda>ax e. [Send_vel X (- ax)])"
| "gen_keymap Key_Q = Some (\<lambda>ax e. [Send_vel Yaw ax])"
| "gen_keymap Key_E = Some (\<lambda>ax e. [Send_vel Yaw (- ax)])"
| "gen_keymap Key_BracketRight = Some (\<lambda>ax e. [Send_vel Z ax])"
| "gen_keymap Key_BracketLeft = Some (\<lambda>ax e. [Send_vel Z (- ax)])"
| "gen_keymap Key_Y = Some (\<lambda>ax e. if ax \<noteq> 0 then [Ap_publish] else [])"
| "gen_keymap (Key_other n) = None"

definition keyPressEvent :: "key_event \<Rightarrow> ui_node \<Rightarrow> effect list" where
  "keyPressEvent event s =
     (let key = ev_key event
      in if ev_isAutoRepeat event \<or> controller s = None then []
         else (case gen_keymap key of Some action \<Rightarrow> action 1 event | None \<Rightarrow> []))"

definition keyReleaseEvent :: "key_event \<Rightarrow> ui_node \<Rightarrow> effect list" where
  "keyReleaseEvent event s =
     (let key = ev_key event
      in if ev_isAutoRepeat event \<or> controller s = None then []
         else (case gen_keymap key of Some action \<Rightarrow> action 0 event | None \<Rightarrow> []))"

subsection \<open>Runs of the node\<close>

text \<open>
  The callbacks arrive in some order. \<open>Navdata\<close> stands for the controller changing
  what it reports. A handler that raises leaves the node as it was; the key handlers
  do not change the node.
\<close>

datatype ui_event =
    Video image_msg
  | Redraw clock
  | Ui_request clock string
  | Key_press key_event
  | Key_release key_event
  | Navdata drone_controller

fun ui_step :: "rounding \<Rightarrow> ui_event \<Rightarrow> ui_node \<Rightarrow> ui_node" where
  "ui_step rnd (Video d) s = on_video_update d s"
| "ui_step rnd (Redraw clk) s =
     (case on_redraw rnd clk s of Inl e \<Rightarrow> s | Inr (s', out) \<Rightarrow> s')"
| "ui_step rnd (Ui_request clk message_data) s = on_ui_request clk message_data s"
| "ui_step rnd (Key_press event) s = s"
| "ui_step rnd (Key_release event) s = s"
| "ui_step rnd (Navdata c) s = s\<lparr>controller := Some c\<rparr>"

fun ui_run :: "rounding \<Rightarrow> ui_event list \<Rightarrow> ui_node \<Rightarrow> ui_node" where
  "ui_run rnd [] s = s"
| "ui_run rnd (e # es) s = ui_run rnd es (ui_step rnd e s)"

text \<open>The effects of the key events of a run, in order.\<close>

fun ui_effects :: "rounding \<Rightarrow> ui_event list \<Rightarrow> ui_node \<Rightarrow> effect list" where
  "ui_effects rnd [] s = []"
| "ui_effects rnd (e # es) s =
     (case e of
        Key_press event \<Rightarrow> keyPressEvent event s
      | Key_release event \<Rightarrow> keyReleaseEvent event s
      | _ \<Rightarrow> [])
     @ ui_effects rnd es (ui_step rnd e s)"

text \<open>The image messages published in a run, in order.\<close>

fun published :: "ui_event list \<Rightarrow> image_msg list" where
  "published [] = []"
| "published (Video d # es) = d # published es"
| "published (e # es) = published es"

text \<open>A key event that Qt marks as generated by auto-repeat.\<close>

fun is_auto_repeat :: "ui_event \<Rightarrow> bool" where
  "is_auto_repeat (Key_press event) = ev_isAutoRepeat event"
| "is_auto_repeat (Key_release event) = ev_isAutoRepeat event"
| "is_auto_repeat _ = False"

section \<open>Properties of \<^verbatim>\<open>Messages\<close>\<close>

lemma messages_put_loop_named:
  "messages_named (messages_put_loop clk k msgs s) name =
     (case last_put name msgs of Some v \<Rightarrow> Some v | None \<Rightarrow> messages_named s name)"
proof (induction clk k msgs s rule: messages_put_loop.induct)
  case (1 clk k s)
  show ?case by simp
next
  case (2 clk k message rest s)
  then show ?case by (simp split: option.splits)
next
  case (3 clk k message n rest s)
  then show ?case by (simp split: option.splits)
qed

lemma last_put_append:
  "last_put name (xs @ ys) =
     (case last_put name ys of Some v \<Rightarrow> Some v | None \<Rightarrow> last_put name xs)"
  by (induction xs) (auto split: option.splits)

lemma call_named:
  "messages_named (call rnd c s) name =
     (case last_put name (puts_of c) of Some v \<Rightarrow> Some v | None \<Rightarrow> messages_named s name)"
  by (cases c)
    (simp_all add: messages_put_def message_put_def messages_flush_def clean_queue_def
      render_def Let_def messages_put_loop_named)

lemma run_named:
  "messages_named (run rnd cs s) name =
     (case last_put name (concat (map puts_of cs)) of
        Some v \<Rightarrow> Some v
      | None \<Rightarrow> messages_named s name)"
proof (induction cs arbitrary: s)
  case Nil
  show ?case by simp
next
  case (Cons c cs)
  show ?case
    by (simp add: Cons.IH call_named last_put_append split: option.splits)
qed

subsection \<open>Named slots, the queue and \<^verbatim>\<open>render\<close>\<close>

lemma last_put_split:
  assumes "\<forall>p \<in> set after. snd p \<noteq> Some name"
  shows "last_put name (before @ (v, Some name) # after) = Some v"
proof -
  have "last_put name after = None" using assms
    by (induction after) (auto split: option.splits)
  then show ?thesis by (simp add: last_put_append)
qed

text \<open>
  Claim C1. After any sequence of calls on the object, the named map gives a name the
  value of the most recent put for that name: when the pairs put by the calls, in order,
  are \<open>before @ (v, Some name) # after\<close> and no pair of \<open>after\<close> carries \<open>name\<close>, the
  map holds \<open>v\<close> at \<open>name\<close>, whatever \<open>before\<close> put there and whatever other calls
  (\<^verbatim>\<open>messages_flush\<close>, \<^verbatim>\<open>clean_queue\<close>, \<^verbatim>\<open>render\<close>) are interleaved.
\<close>

theorem named_last_write_wins:
  assumes "concat (map puts_of cs) = before @ (v, Some name) # after"
    and "\<forall>p \<in> set after. snd p \<noteq> Some name"
  shows "messages_named (run rnd cs s) name = Some v"
  by (simp add: run_named assms(1) last_put_split [OF assms(2)])

text \<open>
  Claim C4. \<^verbatim>\<open>messages_flush\<close> returns the object as it was: the named map, the
  queue, the structure and the display time are all unchanged.
\<close>

theorem messages_flush_changes_nothing:
  "messages_flush s = s"
  by (simp add: messages_flush_def)

text \<open>
  Claim C10. A name that is a key of the named map stays a key, with some value, after
  any sequence of \<^verbatim>\<open>messages_put\<close>, \<^verbatim>\<open>message_put\<close>, \<^verbatim>\<open>messages_flush\<close>,
  \<^verbatim>\<open>clean_queue\<close> and \<^verbatim>\<open>render\<close> calls.
\<close>

theorem named_keys_stay:
  assumes "messages_named s name = Some v"
  shows "\<exists>v'. messages_named (run rnd cs s) name = Some v'"
  using assms by (simp add: run_named split: option.splits)

lemma clean_queue_loop_suffix:
  "\<exists>dropped. q = dropped @ clean_queue_loop rnd clk k limit q"
proof (induction q arbitrary: k)
  case Nil
  show ?case by simp
next
  case (Cons p q)
  obtain m t where p: "p = (m, t)" by (cases p)
  show ?case
  proof (cases "rnd (clk k - t) > of_int limit")
    case True
    from Cons.IH [of "Suc k"] obtain d
      where "q = d @ clean_queue_loop rnd clk (Suc k) limit q" ..
    then have "p # q = (p # d) @ clean_queue_loop rnd clk (Suc k) limit q" by simp
    with True p show ?thesis by (metis clean_queue_loop.simps(2))
  next
    case False
    with p show ?thesis by simp
  qed
qed

text \<open>
  Claim C3, as the code has it. \<^verbatim>\<open>render\<close> begins with \<^verbatim>\<open>self.clean_queue()\<close>: it
  leaves the named map, the structure and the display time as they were, and leaves the
  queue as \<^verbatim>\<open>clean_queue\<close> leaves it at that moment, which is the old queue without
  some front part.
\<close>

theorem render_prunes_queue_only:
  "messages_named (fst (render rnd clk width height s)) = messages_named s
   \<and> message_structure (fst (render rnd clk width height s)) = message_structure s
   \<and> message_display_time (fst (render rnd clk width height s)) = message_display_time s
   \<and> messages_queue (fst (render rnd clk width height s)) = messages_queue (clean_queue rnd clk s)
   \<and> (\<exists>dropped. messages_queue s = dropped @ messages_queue (fst (render rnd clk width height s)))"
  using clean_queue_loop_suffix [where q = "messages_queue s" and rnd = rnd and clk = clk
      and k = 0 and limit = "display_seconds s"]
  by (simp add: render_def Let_def clean_queue_def)

subsection \<open>Pruning at an instant, and histories in time order\<close>

text \<open>With a monotone rounding, pruning at one instant keeps exactly the entries whose
  computed age does not exceed the limit, when the stamps are in order.\<close>

lemma clean_queue_loop_at:
  assumes "mono rnd" and "sorted (map snd q)"
  shows "clean_queue_loop rnd (clock_at now) k limit q =
     filter (\<lambda>(m, t). \<not> rnd (now - t) > of_int limit) q"
  using assms(2)
proof (induction q arbitrary: k)
  case Nil
  show ?case by simp
next
  case (Cons p q)
  obtain m t where p: "p = (m, t)" by (cases p)
  show ?case
  proof (cases "rnd (now - t) > of_int limit")
    case True
    with Cons p show ?thesis by (simp add: clock_at_def)
  next
    case False
    have "\<not> rnd (now - snd e) > of_int limit" if "e \<in> set q" for e
    proof -
      have "t \<le> snd e" using Cons.prems p that by auto
      then have "rnd (now - snd e) \<le> rnd (now - t)"
        using assms(1) by (simp add: monoD)
      with False show ?thesis by linarith
    qed
    then have "filter (\<lambda>(m, t). \<not> rnd (now - t) > of_int limit) q = q"
      by (intro filter_True) auto
    with False p show ?thesis by (simp add: clock_at_def)
  qed
qed

lemma messages_put_loop_sorted:
  "sorted (map snd (messages_queue s)) \<Longrightarrow>
   \<forall>e \<in> set (messages_queue s). snd e \<le> clk k \<Longrightarrow>
   mono clk \<Longrightarrow>
   sorted (map snd (messages_queue (messages_put_loop clk k msgs s)))"
proof (induction clk k msgs s rule: messages_put_loop.induct)
  case (1 clk k s)
  then show ?case by simp
next
  case (2 clk k message rest s)
  let ?s = "s\<lparr>messages_queue := messages_queue s @ [(message, clk k)]\<rparr>"
  have le: "clk k \<le> clk (Suc k)" using \<open>mono clk\<close> by (simp add: monoD)
  have "sorted (map snd (messages_queue ?s))"
    using "2.prems"(1,2) by (simp add: sorted_append)
  moreover have "\<forall>e \<in> set (messages_queue ?s). snd e \<le> clk (Suc k)"
    using "2.prems"(2) le by auto
  ultimately show ?case using "2.IH" "2.prems"(3) by simp
next
  case (3 clk k message name rest s)
  then show ?case by simp
qed

lemma clean_queue_loop_sorted:
  "sorted (map snd q) \<Longrightarrow> sorted (map snd (clean_queue_loop rnd clk k limit q))"
  by (induction q arbitrary: k) auto

lemma clean_queue_loop_subset:
  "set (clean_queue_loop rnd clk k limit q) \<subseteq> set q"
  using clean_queue_loop_suffix [of q rnd clk k limit] by (metis set_append Un_upper2)

lemma messages_put_loop_stamps:
  "e \<in> set (messages_queue (messages_put_loop (clock_at t) k msgs s)) \<Longrightarrow>
   e \<in> set (messages_queue s) \<or> snd e = t"
  by (induction "clock_at t" k msgs s rule: messages_put_loop.induct)
    (auto simp: clock_at_def)

text \<open>What a call at the instant \<open>t\<close> can leave in the queue.\<close>

lemma call_at_time_stamps:
  "e \<in> set (messages_queue (call rnd (at_time t operation) s)) \<Longrightarrow>
   e \<in> set (messages_queue s) \<or> snd e = t"
proof (cases operation)
  case (Op_messages_put msgs)
  assume "e \<in> set (messages_queue (call rnd (at_time t operation) s))"
  with Op_messages_put show ?thesis
    by (auto simp: messages_put_def dest: messages_put_loop_stamps)
next
  case (Op_message_put message name)
  assume "e \<in> set (messages_queue (call rnd (at_time t operation) s))"
  with Op_message_put show ?thesis
    by (auto simp: message_put_def messages_put_def dest: messages_put_loop_stamps)
next
  case Op_messages_flush
  assume "e \<in> set (messages_queue (call rnd (at_time t operation) s))"
  with Op_messages_flush show ?thesis by (simp add: messages_flush_def)
next
  case Op_clean_queue
  assume "e \<in> set (messages_queue (call rnd (at_time t operation) s))"
  with Op_clean_queue show ?thesis
    by (auto simp: clean_queue_def dest: subsetD [OF clean_queue_loop_subset])
next
  case (Op_render w h)
  assume "e \<in> set (messages_queue (call rnd (at_time t operation) s))"
  with Op_render show ?thesis
    by (auto simp: render_def Let_def clean_queue_def dest: subsetD [OF clean_queue_loop_subset])
qed

lemma call_at_time_sorted:
  assumes "sorted (map snd (messages_queue s))"
    and "\<forall>e \<in> set (messages_queue s). snd e \<le> t"
  shows "sorted (map snd (messages_queue (call rnd (at_time t operation) s)))"
proof -
  have m: "mono (clock_at t)" by (simp add: clock_at_def mono_def)
  have b: "\<forall>e \<in> set (messages_queue s). snd e \<le> clock_at t 0"
    using assms(2) by (simp add: clock_at_def)
  show ?thesis
    using assms(1) m b
    by (cases operation)
      (simp_all add: messages_put_def message_put_def messages_flush_def clean_queue_def
        render_def Let_def messages_put_loop_sorted clean_queue_loop_sorted)
qed

lemma call_display_time:
  "message_display_time (call rnd c s) = message_display_time s"
proof -
  have "message_display_time (messages_put_loop clk k msgs s) = message_display_time s"
    for clk k msgs
    by (induction clk k msgs s rule: messages_put_loop.induct) simp_all
  then show ?thesis
    by (cases c)
      (simp_all add: messages_put_def message_put_def messages_flush_def clean_queue_def
        render_def Let_def)
qed

lemma run_display_time:
  "message_display_time (run rnd cs s) = message_display_time s"
  by (induction cs arbitrary: s) (simp_all add: call_display_time)

text \<open>In a history whose calls come at non-decreasing times the stamps stay in order.\<close>

lemma run_timed_sorted:
  "sorted (map fst h) \<Longrightarrow>
   sorted (map snd (messages_queue s)) \<Longrightarrow>
   \<forall>e \<in> set (messages_queue s). \<forall>x \<in> set h. snd e \<le> fst x \<Longrightarrow>
   sorted (map snd (messages_queue (run rnd (timed h) s)))"
proof (induction h arbitrary: s)
  case Nil
  then show ?case by (simp add: timed_def)
next
  case (Cons x h)
  obtain t operation where x: "x = (t, operation)" by (cases x)
  let ?s = "call rnd (at_time t operation) s"
  have 1: "sorted (map fst h)" using Cons.prems(1) by simp
  have le: "\<forall>y \<in> set h. t \<le> fst y" using Cons.prems(1) x by auto
  have "\<forall>e \<in> set (messages_queue s). snd e \<le> t" using Cons.prems(3) x by auto
  then have 2: "sorted (map snd (messages_queue ?s))"
    using Cons.prems(2) by (intro call_at_time_sorted)
  have 3: "\<forall>e \<in> set (messages_queue ?s). \<forall>y \<in> set h. snd e \<le> fst y"
  proof (intro ballI)
    fix e y
    assume e: "e \<in> set (messages_queue ?s)" and y: "y \<in> set h"
    from call_at_time_stamps [OF e] show "snd e \<le> fst y"
    proof
      assume "e \<in> set (messages_queue s)"
      then show ?thesis using Cons.prems(3) y by auto
    next
      assume "snd e = t"
      then show ?thesis using le y by auto
    qed
  qed
  have "sorted (map snd (messages_queue (run rnd (timed h) ?s)))"
    using 1 2 3 by (rule Cons.IH)
  then show ?case by (simp add: timed_def x)
qed

text \<open>An entry that is not in the queue is not put there by calls at other times.\<close>

lemma run_timed_absent:
  "e \<notin> set (messages_queue s) \<Longrightarrow>
   \<forall>x \<in> set h. fst x \<noteq> snd e \<Longrightarrow>
   e \<notin> set (messages_queue (run rnd (timed h) s))"
proof (induction h arbitrary: s)
  case Nil
  then show ?case by (simp add: timed_def)
next
  case (Cons x h)
  obtain t operation where x: "x = (t, operation)" by (cases x)
  have "t \<noteq> snd e" using Cons.prems(2) x by auto
  then have "e \<notin> set (messages_queue (call rnd (at_time t operation) s))"
    using Cons.prems(1) call_at_time_stamps [of e rnd t operation s] by auto
  moreover have "\<forall>y \<in> set h. fst y \<noteq> snd e" using Cons.prems(2) by simp
  ultimately have "e \<notin> set (messages_queue (run rnd (timed h) (call rnd (at_time t operation) s)))"
    by (rule Cons.IH)
  then show ?case by (simp add: timed_def x)
qed

text \<open>
  Claim C2, as the code has it. The test is \<^verbatim>\<open>now - T > message_display_time / 1000\<close>,
  strict, on the rounded difference of the two doubles. Take a display time of a whole
  number \<open>ttl \<ge> 0\<close> of seconds and a queue reached from a new object by calls at
  non-decreasing times. A message stamped \<open>T\<close> in that queue is still there after
  \<^verbatim>\<open>clean_queue\<close> at \<open>now\<close> whenever \<open>now \<le> T + ttl\<close>, the boundary included (and
  whenever the computed difference does not exceed \<open>ttl\<close>). It is removed when the
  computed difference \<open>now - T\<close> exceeds \<open>ttl\<close>, and then it stays absent through every
  sequence of later calls, anonymous puts included.
\<close>

theorem clean_queue_boundary:
  assumes "mono rnd" and "rnd (of_int ttl) = of_int ttl" and "0 \<le> ttl"
    and "sorted (map fst h)"
    and "(m, T) \<in> set (messages_queue (run rnd (timed h) (Messages_init (1000 * ttl) structure)))"
  shows "(now \<le> T + of_int ttl \<or> rnd (now - T) \<le> of_int ttl \<longrightarrow>
            (m, T) \<in> set (messages_queue
               (clean_queue rnd (clock_at now)
                  (run rnd (timed h) (Messages_init (1000 * ttl) structure)))))
       \<and> (rnd (now - T) > of_int ttl \<longrightarrow>
            (\<forall>later. (\<forall>x \<in> set later. now \<le> fst x) \<longrightarrow>
               (m, T) \<notin> set (messages_queue
                  (run rnd (timed later)
                     (clean_queue rnd (clock_at now)
                        (run rnd (timed h) (Messages_init (1000 * ttl) structure)))))))"
proof -
  let ?s = "run rnd (timed h) (Messages_init (1000 * ttl) structure)"
  have d: "display_seconds ?s = ttl"
    by (simp add: display_seconds_def run_display_time Messages_init_def)
  have "sorted (map snd (messages_queue ?s))"
    using assms(4) by (intro run_timed_sorted) (simp_all add: Messages_init_def)
  then have eq: "messages_queue (clean_queue rnd (clock_at now) ?s) =
      filter (\<lambda>(m, t). \<not> rnd (now - t) > of_int ttl) (messages_queue ?s)"
    by (simp add: clean_queue_def d clean_queue_loop_at [OF assms(1)])
  have keep: "(m, T) \<in> set (messages_queue (clean_queue rnd (clock_at now) ?s))"
    if "now \<le> T + of_int ttl \<or> rnd (now - T) \<le> of_int ttl"
  proof -
    have "rnd (now - T) \<le> of_int ttl"
    proof (cases "now \<le> T + of_int ttl")
      case True
      then have "now - T \<le> of_int ttl" by simp
      then have "rnd (now - T) \<le> rnd (of_int ttl)" by (rule monoD [OF assms(1)])
      then show ?thesis using assms(2) by simp
    next
      case False
      with that show ?thesis by simp
    qed
    then show ?thesis using assms(5) by (simp add: eq)
  qed
  have gone: "(m, T) \<notin> set (messages_queue
        (run rnd (timed later) (clean_queue rnd (clock_at now) ?s)))"
    if r: "rnd (now - T) > of_int ttl" and l: "\<forall>x \<in> set later. now \<le> fst x" for later
  proof -
    have a: "(m, T) \<notin> set (messages_queue (clean_queue rnd (clock_at now) ?s))"
      using r by (simp add: eq)
    have "\<not> now - T \<le> of_int ttl"
    proof
      assume "now - T \<le> of_int ttl"
      then have "rnd (now - T) \<le> rnd (of_int ttl)" by (rule monoD [OF assms(1)])
      with r assms(2) show False by simp
    qed
    then have "T < now" using assms(3) by simp
    then have "\<forall>x \<in> set later. fst x \<noteq> snd (m, T)" using l by auto
    with a show ?thesis by (rule run_timed_absent)
  qed
  show ?thesis using keep gone by blast
qed

section \<open>Properties of \<^verbatim>\<open>UInode\<close>\<close>

subsection \<open>The message pattern\<close>

lemma colon_not_name_char: "\<not> is_name_char CHR '':''"
  by (simp add: is_name_char_def)

lemma try_name_inside_run:
  "n < length (takeWhile is_name_char s) \<Longrightarrow> try_name n s = None"
proof (induction n)
  case 0
  show ?case by simp
next
  case (Suc n)
  let ?run = "takeWhile is_name_char s"
  have len: "Suc n < length s"
    using Suc.prems length_takeWhile_le [of is_name_char s] by simp
  have "?run ! Suc n \<in> set ?run" using Suc.prems by simp
  then have "is_name_char (?run ! Suc n)" by (rule set_takeWhileD [THEN conjunct2])
  then have "is_name_char (s ! Suc n)" using Suc.prems by (simp add: takeWhile_nth)
  then have "s ! Suc n \<noteq> CHR '':''" using colon_not_name_char by auto
  moreover have "drop (Suc n) s = s ! Suc n # drop (Suc (Suc n)) s"
    using len by (simp add: Cons_nth_drop_Suc)
  ultimately have "take 2 (drop (Suc n) s) \<noteq> ''::''"
    by (simp add: numeral_2_eq_2)
  then show ?case using Suc by simp
qed

lemma try_name_run:
  "try_name (length (takeWhile is_name_char s)) s =
     (if takeWhile is_name_char s \<noteq> [] \<and> take 2 (dropWhile is_name_char s) = ''::''
      then Some (takeWhile is_name_char s, drop 2 (dropWhile is_name_char s))
      else None)"
proof (cases "length (takeWhile is_name_char s)")
  case 0
  then show ?thesis by simp
next
  case (Suc n)
  have t: "take (Suc n) s = takeWhile is_name_char s"
    unfolding Suc [symmetric] by (rule takeWhile_eq_take [symmetric])
  have d: "drop (Suc n) s = dropWhile is_name_char s"
    unfolding Suc [symmetric] by (rule dropWhile_eq_drop [symmetric])
  have d2: "drop (Suc n + 2) s = drop 2 (dropWhile is_name_char s)"
    using d by (metis add.commute drop_drop)
  have ne: "takeWhile is_name_char s \<noteq> []" using Suc by auto
  have none: "try_name n s = None" using Suc by (simp add: try_name_inside_run)
  have "try_name (Suc n) s =
      (if take 2 (drop (Suc n) s) = ''::''
       then Some (take (Suc n) s, drop (Suc n + 2) s) else try_name n s)"
    by (simp only: try_name.simps)
  then have "try_name (Suc n) s =
      (if take 2 (dropWhile is_name_char s) = ''::''
       then Some (takeWhile is_name_char s, drop 2 (dropWhile is_name_char s)) else None)"
    by (simp only: t d d2 none)
  then show ?thesis using ne by (simp only: Suc [symmetric] simp_thms)
qed

lemma dot_star_no_newline: "CHR 0x0A \<notin> set s \<Longrightarrow> dot_star s = s"
  by (auto simp: dot_star_def)

text \<open>
  Claim C5, as the code has it. When the longest leading run of class characters is not
  empty and \<^verbatim>\<open>::\<close> follows it, \<^verbatim>\<open>on_ui_request\<close> stores under that run what follows the
  \<^verbatim>\<open>::\<close> up to the first newline; otherwise it appends the string up to its first
  newline to the queue, stamped with the clock. For a string without a newline that is
  everything after the \<^verbatim>\<open>::\<close>, or the whole string.
\<close>

theorem on_ui_request_split:
  "(takeWhile is_name_char d \<noteq> [] \<and> take 2 (dropWhile is_name_char d) = ''::'' \<longrightarrow>
      on_ui_request clk d s =
        s\<lparr>ui_messages := (ui_messages s)
            \<lparr>messages_named := (messages_named (ui_messages s))
               (takeWhile is_name_char d \<mapsto>
                  PyStr (dot_star (drop 2 (dropWhile is_name_char d))))\<rparr>\<rparr>)
   \<and> (\<not> (takeWhile is_name_char d \<noteq> [] \<and> take 2 (dropWhile is_name_char d) = ''::'') \<longrightarrow>
      on_ui_request clk d s =
        s\<lparr>ui_messages := (ui_messages s)
            \<lparr>messages_queue := messages_queue (ui_messages s) @ [(PyStr (dot_star d), clk 0)]\<rparr>\<rparr>)
   \<and> (CHR 0x0A \<notin> set d \<longrightarrow>
        dot_star d = d
        \<and> dot_star (drop 2 (dropWhile is_name_char d)) = drop 2 (dropWhile is_name_char d))"
proof -
  have "CHR 0x0A \<notin> set (drop 2 (dropWhile is_name_char d))" if "CHR 0x0A \<notin> set d"
    using that by (meson in_set_dropD set_dropWhileD)
  then show ?thesis
    by (simp add: on_ui_request_def messages_named_template_def try_name_run
        message_put_def messages_put_def dot_star_no_newline)
qed

lemma template_named_example: "messages_named_template ''not::a::valid name::rest'' = (Some ''not'', ''a::valid name::rest'')"
  by (simp add: messages_named_template_def is_name_char_def dot_star_def)

lemma template_anonymous_example: "messages_named_template ''no name here'' = (None, ''no name here'')"
  by (simp add: messages_named_template_def is_name_char_def dot_star_def)

lemma template_newline_example: "messages_named_template (''a::b'' @ [CHR 0x0A] @ ''c'') = (Some ''a'', ''b'')"
  by (simp add: messages_named_template_def is_name_char_def dot_star_def)

subsection \<open>Key events\<close>

lemma auto_repeat_step: "is_auto_repeat e \<Longrightarrow> ui_step rnd e s = s"
  by (cases e) simp_all

lemma auto_repeat_effects:
  "list_all is_auto_repeat mid \<Longrightarrow> ui_effects rnd (mid @ rest) s = ui_effects rnd rest s"
proof (induction mid)
  case Nil
  show ?case by simp
next
  case (Cons e mid)
  then have a: "is_auto_repeat e" and "list_all is_auto_repeat mid" by simp_all
  then have "ui_effects rnd (mid @ rest) (ui_step rnd e s) = ui_effects rnd rest s"
    using Cons.IH by (simp add: auto_repeat_step)
  moreover have "(case e of
        Key_press event \<Rightarrow> keyPressEvent event s
      | Key_release event \<Rightarrow> keyReleaseEvent event s
      | _ \<Rightarrow> []) = []"
    using a by (cases e) (simp_all add: keyPressEvent_def keyReleaseEvent_def)
  ultimately show ?case by simp
qed

text \<open>
  Claim C6. With the controller in place: an auto-repeat event makes no call; a press
  that is not an auto-repeat, of a key the keymap has, runs exactly the key's action with
  \<open>ax = 1\<close>, and such a release runs it with \<open>ax = 0\<close>; a key the keymap lacks makes no
  call. So pressing and releasing \<^verbatim>\<open>W\<close>, with any auto-repeat key events in between,
  gives exactly \<^verbatim>\<open>send_vel(x=1)\<close> and then \<^verbatim>\<open>send_vel(x=0)\<close>.
\<close>

theorem key_events_dispatch:
  assumes "controller s = Some c"
  shows "(ev_isAutoRepeat event \<longrightarrow>
            keyPressEvent event s = [] \<and> keyReleaseEvent event s = [])
       \<and> (\<forall>action. \<not> ev_isAutoRepeat event \<and> gen_keymap (ev_key event) = Some action \<longrightarrow>
            keyPressEvent event s = action 1 event
            \<and> keyReleaseEvent event s = action 0 event)
       \<and> (gen_keymap (ev_key event) = None \<longrightarrow>
            keyPressEvent event s = [] \<and> keyReleaseEvent event s = [])
       \<and> (list_all is_auto_repeat mid \<longrightarrow>
            ui_effects rnd
              (Key_press \<lparr>ev_key = Key_W, ev_isAutoRepeat = False\<rparr> # mid
                 @ [Key_release \<lparr>ev_key = Key_W, ev_isAutoRepeat = False\<rparr>]) s
            = [Send_vel X 1, Send_vel X 0])"
proof -
  have w: "ui_effects rnd
              (Key_press \<lparr>ev_key = Key_W, ev_isAutoRepeat = False\<rparr> # mid
                 @ [Key_release \<lparr>ev_key = Key_W, ev_isAutoRepeat = False\<rparr>]) s
            = [Send_vel X 1, Send_vel X 0]" if "list_all is_auto_repeat mid"
    using assms auto_repeat_effects [OF that]
    by (simp add: keyPressEvent_def keyReleaseEvent_def)
  show ?thesis
    using assms w by (simp add: keyPressEvent_def keyReleaseEvent_def)
qed

theorem key_events_dispatch_witness:
  "ui_effects id
     [Key_press \<lparr>ev_key = Key_W, ev_isAutoRepeat = False\<rparr>,
      Key_press \<lparr>ev_key = Key_W, ev_isAutoRepeat = True\<rparr>,
      Key_release \<lparr>ev_key = Key_W, ev_isAutoRepeat = True\<rparr>,
      Key_press \<lparr>ev_key = Key_W, ev_isAutoRepeat = True\<rparr>,
      Key_release \<lparr>ev_key = Key_W, ev_isAutoRepeat = False\<rparr>]
     (UInode_init False
        \<lparr>is_online = True, status_readable = PyStr ''ok'', battery = PyNone\<rparr> 5000)
   = [Send_vel X 1, Send_vel X 0]
   \<and> keyPressEvent \<lparr>ev_key = Key_other 32, ev_isAutoRepeat = False\<rparr>
     (UInode_init False
        \<lparr>is_online = True, status_readable = PyStr ''ok'', battery = PyNone\<rparr> 5000) = []
   \<and> keyReleaseEvent \<lparr>ev_key = Key_S, ev_isAutoRepeat = False\<rparr>
     (UInode_init False
        \<lparr>is_online = True, status_readable = PyStr ''ok'', battery = PyNone\<rparr> 5000)
     = [Send_vel X 0]"
proof -
  let ?c = "\<lparr>is_online = True, status_readable = PyStr ''ok'', battery = PyNone\<rparr>"
  let ?s = "UInode_init False ?c 5000"
  let ?mid = "[Key_press \<lparr>ev_key = Key_W, ev_isAutoRepeat = True\<rparr>,
      Key_release \<lparr>ev_key = Key_W, ev_isAutoRepeat = True\<rparr>,
      Key_press \<lparr>ev_key = Key_W, ev_isAutoRepeat = True\<rparr>]"
  have c: "controller ?s = Some ?c" by (simp add: UInode_init_def)
  have m: "list_all is_auto_repeat ?mid" by simp
  have 1: "ui_effects id
     (Key_press \<lparr>ev_key = Key_W, ev_isAutoRepeat = False\<rparr> # ?mid
        @ [Key_release \<lparr>ev_key = Key_W, ev_isAutoRepeat = False\<rparr>]) ?s
     = [Send_vel X 1, Send_vel X 0]"
    using key_events_dispatch [OF c, where mid = "?mid" and rnd = id] m by blast
  have 2: "keyPressEvent \<lparr>ev_key = Key_other 32, ev_isAutoRepeat = False\<rparr> ?s = []"
    using key_events_dispatch [OF c, where event = "\<lparr>ev_key = Key_other 32, ev_isAutoRepeat = False\<rparr>"]
    by simp
  have "gen_keymap (ev_key \<lparr>ev_key = Key_S, ev_isAutoRepeat = False\<rparr>)
      = Some (\<lambda>ax e. [Send_vel X (- ax)])" by simp
  then have 3: "keyReleaseEvent \<lparr>ev_key = Key_S, ev_isAutoRepeat = False\<rparr> ?s = [Send_vel X 0]"
    using key_events_dispatch [OF c, where event = "\<lparr>ev_key = Key_S, ev_isAutoRepeat = False\<rparr>"]
    by simp
  show ?thesis using 1 2 3 by simp
qed

subsection \<open>The image slot and the redraw\<close>

lemma on_redraw_keeps:
  "on_redraw rnd clk s = Inr (s', out) \<Longrightarrow>
     ui_image s' = ui_image s \<and> swap_red_blue s' = swap_red_blue s
     \<and> controller s' = controller s"
  by (auto simp: on_redraw_def Let_def split: option.splits prod.splits)

lemma on_redraw_total:
  "controller s = Some c \<Longrightarrow> \<exists>s' out. on_redraw rnd clk s = Inr (s', out)"
  by (simp add: on_redraw_def Let_def split: prod.splits)

lemma on_redraw_pixmap:
  "controller s = Some c \<Longrightarrow> on_redraw rnd clk s = Inr (s', out) \<Longrightarrow>
     out_pixmap out =
       (case ui_image s of
          Some i \<Rightarrow> if is_online c then FromImage i else Filled 640 360 (50, 50, 50)
        | None \<Rightarrow> Filled 640 360 (50, 50, 50))
     \<and> out_resize out = (pixmap_width (out_pixmap out), pixmap_height (out_pixmap out))"
  by (auto simp: on_redraw_def Let_def placeholder_def split: option.splits prod.splits)

lemma ui_step_swap: "swap_red_blue (ui_step rnd e s) = swap_red_blue s"
proof (cases e)
  case (Redraw clk)
  then show ?thesis
    by (cases "on_redraw rnd clk s") (auto dest: on_redraw_keeps)
qed (simp_all add: on_video_update_def on_ui_request_def Let_def split: prod.splits)

lemma ui_step_controller: "controller s \<noteq> None \<Longrightarrow> controller (ui_step rnd e s) \<noteq> None"
proof (cases e)
  case (Redraw clk)
  assume "controller s \<noteq> None"
  with Redraw show ?thesis
    by (cases "on_redraw rnd clk s") (auto dest: on_redraw_keeps)
qed (simp_all add: on_video_update_def on_ui_request_def Let_def split: prod.splits)

lemma ui_run_controller: "controller s \<noteq> None \<Longrightarrow> controller (ui_run rnd es s) \<noteq> None"
proof (induction es arbitrary: s)
  case Nil
  then show ?case by simp
next
  case (Cons e es)
  have "controller (ui_step rnd e s) \<noteq> None" using Cons.prems by (rule ui_step_controller)
  then have "controller (ui_run rnd es (ui_step rnd e s)) \<noteq> None" by (rule Cons.IH)
  then show ?case by simp
qed

lemma ui_step_image_other:
  "published [e] = [] \<Longrightarrow> ui_image (ui_step rnd e s) = ui_image s"
proof (cases e)
  case (Redraw clk)
  then show ?thesis
    by (cases "on_redraw rnd clk s") (auto dest: on_redraw_keeps)
qed (simp_all add: on_ui_request_def Let_def split: prod.splits)

lemma published_Cons:
  "published (e # es) = published [e] @ published es"
  by (cases e) simp_all

lemma ui_run_image:
  "ui_image (ui_run rnd es s) =
     (if published es = [] then ui_image s
      else ui_image (on_video_update (last (published es)) s))"
proof (induction es arbitrary: s)
  case Nil
  show ?case by simp
next
  case (Cons e es)
  show ?case
  proof (cases "published [e] = []")
    case True
    then have "published (e # es) = published es" by (simp add: published_Cons [of e es])
    moreover have "ui_image (on_video_update d (ui_step rnd e s)) = ui_image (on_video_update d s)" for d
      by (simp add: on_video_update_def Let_def ui_step_swap)
    ultimately show ?thesis
      by (simp add: Cons.IH ui_step_image_other [OF True])
  next
    case False
    then obtain d where e: "e = Video d" by (cases e) simp_all
    have "ui_image (on_video_update d' (on_video_update d s)) = ui_image (on_video_update d' s)" for d'
      by (simp add: on_video_update_def Let_def)
    then show ?thesis by (simp add: e Cons.IH)
  qed
qed

text \<open>
  Claim C7. After any run of callbacks in which at least one image was published,
  \<^verbatim>\<open>self.image\<close> is the image built from the last published message (red and blue
  swapped when the node is configured so), wherever the redraws fall in the run; with no
  publication since the start it is \<^verbatim>\<open>None\<close>. Redraws do not empty the slot: two more
  redraws leave it as it is, and with the controller online both of them paint on that
  same image.
\<close>

theorem frame_slot_holds_last_published:
  "(published es \<noteq> [] \<longrightarrow>
      ui_image (ui_run rnd es s) =
        Some (let d = last (published es);
                  image = QImage_RGB888 (msg_data d) (msg_width d) (msg_height d)
              in if swap_red_blue s then rgbSwapped image else image))
   \<and> (published es = [] \<longrightarrow> ui_image (ui_run rnd es (UInode_init swap c t)) = None)
   \<and> ui_image (ui_run rnd (es @ [Redraw clk1, Redraw clk2]) s) = ui_image (ui_run rnd es s)
   \<and> (\<forall>c' i. controller (ui_run rnd es s) = Some c' \<and> is_online c'
          \<and> ui_image (ui_run rnd es s) = Some i \<longrightarrow>
        (\<exists>s1 out1 s2 out2.
           on_redraw rnd clk1 (ui_run rnd es s) = Inr (s1, out1) \<and> out_pixmap out1 = FromImage i
           \<and> on_redraw rnd clk2 s1 = Inr (s2, out2) \<and> out_pixmap out2 = FromImage i
           \<and> ui_image s2 = Some i))"
proof -
  have 1: "published es \<noteq> [] \<longrightarrow>
      ui_image (ui_run rnd es s) =
        Some (let d = last (published es);
                  image = QImage_RGB888 (msg_data d) (msg_width d) (msg_height d)
              in if swap_red_blue s then rgbSwapped image else image)"
    by (simp add: ui_run_image on_video_update_def Let_def)
  have 2: "published es = [] \<longrightarrow> ui_image (ui_run rnd es (UInode_init swap c t)) = None"
    by (simp add: ui_run_image UInode_init_def)
  have p: "published (es @ [Redraw clk1, Redraw clk2]) = published es"
    by (induction es rule: published.induct) simp_all
  have 3: "ui_image (ui_run rnd (es @ [Redraw clk1, Redraw clk2]) s) = ui_image (ui_run rnd es s)"
    by (simp add: ui_run_image [where es = "es @ [Redraw clk1, Redraw clk2]"] ui_run_image [where es = es] p)
  have 4: "\<exists>s1 out1 s2 out2.
           on_redraw rnd clk1 (ui_run rnd es s) = Inr (s1, out1) \<and> out_pixmap out1 = FromImage i
           \<and> on_redraw rnd clk2 s1 = Inr (s2, out2) \<and> out_pixmap out2 = FromImage i
           \<and> ui_image s2 = Some i"
    if c: "controller (ui_run rnd es s) = Some c'" and o: "is_online c'"
      and i: "ui_image (ui_run rnd es s) = Some i" for c' i
  proof -
    obtain s1 out1 where r1: "on_redraw rnd clk1 (ui_run rnd es s) = Inr (s1, out1)"
      using on_redraw_total [OF c] by blast
    have k1: "ui_image s1 = Some i" "controller s1 = Some c'"
      using on_redraw_keeps [OF r1] c i by simp_all
    have p1: "out_pixmap out1 = FromImage i"
      using on_redraw_pixmap [OF c r1] i o by simp
    obtain s2 out2 where r2: "on_redraw rnd clk2 s1 = Inr (s2, out2)"
      using on_redraw_total [OF k1(2)] by blast
    have k2: "ui_image s2 = Some i"
      using on_redraw_keeps [OF r2] k1 by simp
    have p2: "out_pixmap out2 = FromImage i"
      using on_redraw_pixmap [OF k1(2) r2] k1 o by simp
    show ?thesis using r1 p1 r2 p2 k2 by blast
  qed
  show ?thesis using 1 2 3 4 by blast
qed

text \<open>
  Claim C8. A redraw with a controller returns normally. When the controller is offline
  or \<^verbatim>\<open>self.image\<close> is \<^verbatim>\<open>None\<close>, the pixmap is the 640 by 360 one filled with
  \<^verbatim>\<open>QColor(50, 50, 50)\<close>; the stored image is used exactly when the controller is online
  and an image is stored. After any run from the start without a publication the pixmap
  is that placeholder.
\<close>

theorem redraw_placeholder:
  "(controller s = Some c \<longrightarrow>
      (\<exists>s' out. on_redraw rnd clk s = Inr (s', out)
         \<and> (\<not> is_online c \<or> ui_image s = None \<longrightarrow>
              out_pixmap out = Filled 640 360 (50, 50, 50) \<and> out_resize out = (640, 360))
         \<and> (\<forall>i. is_online c \<and> ui_image s = Some i \<longrightarrow> out_pixmap out = FromImage i)))
   \<and> (published es = [] \<longrightarrow>
      (\<exists>s' out. on_redraw rnd clk (ui_run rnd es (UInode_init swap c0 t)) = Inr (s', out)
         \<and> out_pixmap out = Filled 640 360 (50, 50, 50)))"
proof -
  have a: "\<exists>s' out. on_redraw rnd clk s = Inr (s', out)
         \<and> (\<not> is_online c \<or> ui_image s = None \<longrightarrow>
              out_pixmap out = Filled 640 360 (50, 50, 50) \<and> out_resize out = (640, 360))
         \<and> (\<forall>i. is_online c \<and> ui_image s = Some i \<longrightarrow> out_pixmap out = FromImage i)"
    if c: "controller s = Some c" for s c
  proof -
    obtain s' out where r: "on_redraw rnd clk s = Inr (s', out)"
      using on_redraw_total [OF c] by blast
    show ?thesis using on_redraw_pixmap [OF c r] r
      by (cases "ui_image s") auto
  qed
  have b: "\<exists>s' out. on_redraw rnd clk (ui_run rnd es (UInode_init swap c0 t)) = Inr (s', out)
         \<and> out_pixmap out = Filled 640 360 (50, 50, 50)" if "published es = []"
  proof -
    let ?s = "ui_run rnd es (UInode_init swap c0 t)"
    have "controller (UInode_init swap c0 t) \<noteq> None" by (simp add: UInode_init_def)
    then obtain c1 where c1: "controller ?s = Some c1"
      using ui_run_controller by blast
    have "ui_image ?s = None" using that by (simp add: ui_run_image UInode_init_def)
    then show ?thesis using a [OF c1] by auto
  qed
  show ?thesis using a b by blast
qed

subsection \<open>The layout of the named rows\<close>

lemma top_of_div: "0 \<le> h \<Longrightarrow> top_of h = h div 20"
proof -
  assume h: "0 \<le> h"
  have "real_of_int h * (5 / 100) = real_of_int h / real_of_int 20" by simp
  then have "\<lfloor>real_of_int h * (5 / 100)\<rfloor> = h div 20"
    by (simp only: floor_divide_of_int_eq)
  moreover have "\<not> real_of_int h * (5 / 100) < 0" using h by simp
  ultimately show ?thesis by (simp only: top_of_def py_int_def if_False)
qed

lemma bottom_of_div: "0 \<le> h \<Longrightarrow> bottom_of h = (9 * h) div 10"
proof -
  assume h: "0 \<le> h"
  have "real_of_int h * (9 / 10) = real_of_int (9 * h) / real_of_int 10" by simp
  then have "\<lfloor>real_of_int h * (9 / 10)\<rfloor> = (9 * h) div 10"
    by (simp only: floor_divide_of_int_eq)
  moreover have "\<not> real_of_int h * (9 / 10) < 0" using h by simp
  ultimately show ?thesis by (simp only: bottom_of_def py_int_def if_False)
qed

lemma tall_enough: "29 \<le> h \<Longrightarrow> top_of h + 25 \<le> bottom_of h"
proof -
  assume h: "29 \<le> h"
  consider "h = 29" | "h = 30" | "31 \<le> h" using h by linarith
  then have "h div 20 + 25 \<le> (9 * h) div 10"
  proof cases
    case 1
    then show ?thesis by simp
  next
    case 2
    then show ?thesis by simp
  next
    case 3
    have a: "20 * (h div 20) + h mod 20 = h" by (rule mult_div_mod_eq)
    have b: "0 \<le> h mod 20" by simp
    have c: "10 * ((9 * h) div 10) + (9 * h) mod 10 = 9 * h" by (rule mult_div_mod_eq)
    have d: "(9 * h) mod 10 < 10" by simp
    show ?thesis using 3 a b c d by linarith
  qed
  then show ?thesis using h by (simp add: top_of_div bottom_of_div)
qed

lemma draw_structure_a_gap_bc:
  "draw_structure named height x0 (top_of height) [Single a, Blank, Group [b, c]] =
     (let y0 = top_of height; lim = bottom_of height;
          (x1, y1) =
            (if lim < y0 + 20
             then (if lim < y0 + 5 then (x0 + 2 * column_width, y0)
                   else (x0 + column_width, y0 + 5))
             else if lim < y0 + 25 then (x0 + column_width, y0)
             else (x0, y0 + 25))
      in [DrawText x0 y0 (PyStr (format_row a (named_value named a))),
          DrawText x1 y1 (PyStr (format_row b (named_value named b))),
          DrawText x1 (y1 + 15) (PyStr (format_row c (named_value named c)))])"
  by (simp add: Let_def)

text \<open>
  Claim C9. For the structure \<^verbatim>\<open>['a', None, ['b', 'c']]\<close>, \<^verbatim>\<open>render\<close> draws exactly the
  rows \<^verbatim>\<open>a\<close>, \<^verbatim>\<open>b\<close>, \<^verbatim>\<open>c\<close> in this order and then the queue. \<^verbatim>\<open>a\<close> is at the anchor
  \<open>(x0, y0)\<close>, 5% of width and height. The cursor goes down 15 per row and 5 more after
  each entry (the blank one too), and after an entry that takes it beyond 90% of the
  height it returns to \<open>y0\<close> one column (250) to the right. \<^verbatim>\<open>c\<close> is always 15 below
  \<^verbatim>\<open>b\<close> in the same column: the group starts in a new column exactly when the cursor
  went beyond 90% after \<^verbatim>\<open>a\<close> or after the gap, and is never split. In an image at
  least 29 high no wrap happens before the group: \<^verbatim>\<open>b\<close> is at \<open>(x0, y0 + 25)\<close>.
\<close>

theorem render_layout_a_gap_bc:
  assumes "message_structure s = [Single a, Blank, Group [b, c]]"
  shows
    "(let named = messages_named s;
          x0 = py_int (of_int width * (5 / 100));
          y0 = top_of height;
          lim = bottom_of height;
          (x1, y1) =
            (if lim < y0 + 20
             then (if lim < y0 + 5 then (x0 + 2 * column_width, y0)
                   else (x0 + column_width, y0 + 5))
             else if lim < y0 + 25 then (x0 + column_width, y0)
             else (x0, y0 + 25))
      in snd (render rnd clk width height s) =
           [DrawText x0 y0 (PyStr (format_row a (named_value named a))),
            DrawText x1 y1 (PyStr (format_row b (named_value named b))),
            DrawText x1 (y1 + 15) (PyStr (format_row c (named_value named c)))]
           @ draw_queue height (width - column_width) y0 (messages_queue (clean_queue rnd clk s))
         \<and> (29 \<le> height \<longrightarrow> (x1, y1) = (x0, y0 + 25)))"
proof -
  have s1: "message_structure (clean_queue rnd clk s) = [Single a, Blank, Group [b, c]]"
    "messages_named (clean_queue rnd clk s) = messages_named s"
    using assms by (simp_all add: clean_queue_def)
  show ?thesis
    unfolding render_def Let_def snd_conv s1 draw_structure_a_gap_bc
    using tall_enough [of height] by (auto simp: Let_def)
qed

section \<open>Concrete runs\<close>

theorem named_last_write_wins_witness:
  "messages_named
     (run id [Call_message_put (clock_at 1) (PyStr ''old'') (Some ''tgt.x''),
           Call_messages_put (clock_at 2)
             [(PyStr ''new'', Some ''tgt.x''), (PyStr ''note'', None)],
           Call_render (clock_at 3) 640 360]
        (Messages_init 5000 grid)) ''tgt.x'' = Some (PyStr ''new'')"
proof -
  let ?cs = "[Call_message_put (clock_at 1) (PyStr ''old'') (Some ''tgt.x''),
           Call_messages_put (clock_at 2)
             [(PyStr ''new'', Some ''tgt.x''), (PyStr ''note'', None)],
           Call_render (clock_at 3) 640 360]"
  have 1: "concat (map puts_of ?cs) =
      [(PyStr ''old'', Some ''tgt.x'')] @ (PyStr ''new'', Some ''tgt.x'') # [(PyStr ''note'', None)]"
    by simp
  have 2: "\<forall>p \<in> set [(PyStr ''note'', None :: string option)]. snd p \<noteq> Some ''tgt.x''"
    by simp
  show ?thesis by (rule named_last_write_wins [OF 1 2])
qed

theorem named_keys_stay_witness:
  "\<exists>v'. messages_named
     (run id [Call_messages_flush, Call_clean_queue (clock_at 9), Call_render (clock_at 9) 640 360]
        (message_put (clock_at 0) (PyStr ''42'') (Some ''drone.battery'') (Messages_init 5000 grid)))
     ''drone.battery'' = Some v'"
proof -
  have "messages_named
      (message_put (clock_at 0) (PyStr ''42'') (Some ''drone.battery'') (Messages_init 5000 grid))
      ''drone.battery'' = Some (PyStr ''42'')"
    by (simp add: message_put_def messages_put_def)
  then show ?thesis by (rule named_keys_stay)
qed

text \<open>
  Claim C2 as stated asks for the message to be gone at exactly \<open>now = T + ttl\<close>. A
  message put at time 0 with a display time of 5000 ms is still in the queue after
  \<^verbatim>\<open>clean_queue\<close> at time 5 (the doubles 5.0 and 0.0 subtract exactly, so the rounding
  is the identity here).
\<close>

theorem clean_queue_boundary_counterexample:
  "(PyStr ''hello'', 0) \<in> set (messages_queue
     (clean_queue id (clock_at 5)
        (run id (timed [(0, Op_message_put (PyStr ''hello'') None)])
           (Messages_init 5000 grid))))"
  by (simp add: timed_def message_put_def messages_put_def Messages_init_def clean_queue_def
      display_seconds_def clock_at_def)

theorem clean_queue_boundary_witness:
  "(PyStr ''second'', 1) \<in> set (messages_queue
     (clean_queue id (clock_at 6)
        (run id
           (timed [(0, Op_message_put (PyStr ''first'') None),
                   (1, Op_messages_put [(PyStr ''7'', Some ''tgt.x''), (PyStr ''second'', None)]),
                   (3, Op_render 640 360),
                   (4, Op_message_put (PyStr ''third'') None)])
           (Messages_init 5000 grid))))
   \<and> (PyStr ''first'', 0) \<notin> set (messages_queue
     (run id (timed [(7, Op_message_put (PyStr ''first'') None), (8, Op_render 640 360)])
        (clean_queue id (clock_at 6)
           (run id
              (timed [(0, Op_message_put (PyStr ''first'') None),
                      (1, Op_messages_put
                            [(PyStr ''7'', Some ''tgt.x''), (PyStr ''second'', None)]),
                      (3, Op_render 640 360),
                      (4, Op_message_put (PyStr ''third'') None)])
              (Messages_init 5000 grid)))))"
proof -
  let ?h = "[(0, Op_message_put (PyStr ''first'') None),
             (1, Op_messages_put [(PyStr ''7'', Some ''tgt.x''), (PyStr ''second'', None)]),
             (3, Op_render 640 360),
             (4, Op_message_put (PyStr ''third'') None)]"
  let ?later = "[(7, Op_message_put (PyStr ''first'') None), (8, Op_render 640 360)]"
  let ?s = "run id (timed ?h) (Messages_init 5000 grid)"
  have q: "messages_queue ?s = [(PyStr ''first'', 0), (PyStr ''second'', 1), (PyStr ''third'', 4)]"
    by (simp add: timed_def message_put_def messages_put_def Messages_init_def render_def
        Let_def clean_queue_def display_seconds_def clock_at_def)
  have e: "(1000 * 5 :: int) = 5000" by simp
  have r: "mono (id :: real \<Rightarrow> real)" by (simp add: mono_def)
  have i: "id (of_int 5) = (of_int 5 :: real)" by simp
  have n: "(0::int) \<le> 5" by simp
  have o: "sorted (map fst (?h :: (real \<times> messages_op) list))" by simp
  have m2: "(PyStr ''second'', 1) \<in> set (messages_queue ?s)" by (simp add: q)
  have m1: "(PyStr ''first'', 0) \<in> set (messages_queue ?s)" by (simp add: q)
  have l: "\<forall>x \<in> set ?later. (6::real) \<le> fst x" by simp
  have "(6::real) \<le> 1 + of_int 5" by simp
  with clean_queue_boundary [where ttl = 5, unfolded e, OF r i n o m2, where now = 6]
  have keep: "(PyStr ''second'', 1) \<in> set (messages_queue (clean_queue id (clock_at 6) ?s))"
    by blast
  have "id (6 - 0) > (of_int 5 :: real)" by simp
  with clean_queue_boundary [where ttl = 5, unfolded e, OF r i n o m1, where now = 6] l
  have gone: "(PyStr ''first'', 0) \<notin> set (messages_queue
      (run id (timed ?later) (clean_queue id (clock_at 6) ?s)))"
    by blast
  show ?thesis using keep gone by (rule conjI)
qed

text \<open>
  Claim C3 as stated asks for the queue to be the same before and after \<^verbatim>\<open>render\<close>.
  With one message put at time 0 and a display time of 5000 ms, \<^verbatim>\<open>render\<close> at time 10
  changes the queue (10.0 - 0.0 is exact).
\<close>

theorem render_prunes_queue_only_counterexample:
  "messages_queue (fst (render id (clock_at 10) 640 360
      (message_put (clock_at 0) (PyStr ''hello'') None (Messages_init 5000 grid))))
   \<noteq> messages_queue (message_put (clock_at 0) (PyStr ''hello'') None (Messages_init 5000 grid))"
  by (simp add: render_def Let_def message_put_def messages_put_def Messages_init_def
      clean_queue_def display_seconds_def clock_at_def)

text \<open>
  Claim C5 as stated asks for everything after the \<^verbatim>\<open>::\<close> to become the value. For
  the string \<^verbatim>\<open>a::b\<close>, newline, \<^verbatim>\<open>c\<close> the slot \<^verbatim>\<open>a\<close> receives \<^verbatim>\<open>b\<close> only: \<^verbatim>\<open>.\<close> does
  not match a newline and \<^verbatim>\<open>match\<close> does not ask for the end of the string.
\<close>

theorem on_ui_request_split_counterexample:
  "messages_named (ui_messages
     (on_ui_request (clock_at 0) (''a::b'' @ [CHR 0x0A] @ ''c'')
        (UInode_init False
           \<lparr>is_online = True, status_readable = PyStr ''ok'', battery = PyNone\<rparr> 5000)))
     ''a'' = Some (PyStr ''b'')
   \<and> messages_named (ui_messages
     (on_ui_request (clock_at 0) (''a::b'' @ [CHR 0x0A] @ ''c'')
        (UInode_init False
           \<lparr>is_online = True, status_readable = PyStr ''ok'', battery = PyNone\<rparr> 5000)))
     ''a'' \<noteq> Some (PyStr (''b'' @ [CHR 0x0A] @ ''c''))"
  by (simp add: on_ui_request_def messages_named_template_def is_name_char_def dot_star_def
      message_put_def messages_put_def UInode_init_def Messages_init_def)

theorem on_ui_request_split_witness:
  "messages_named (ui_messages
     (on_ui_request (clock_at 0) ''not::a::valid name::rest''
        (UInode_init False
           \<lparr>is_online = True, status_readable = PyStr ''ok'', battery = PyNone\<rparr> 5000)))
     ''not'' = Some (PyStr ''a::valid name::rest'')
   \<and> messages_queue (ui_messages
     (on_ui_request (clock_at 7) ''no name here''
        (UInode_init False
           \<lparr>is_online = True, status_readable = PyStr ''ok'', battery = PyNone\<rparr> 5000)))
     = [(PyStr ''no name here'', 7)]"
proof -
  let ?s = "UInode_init False
           \<lparr>is_online = True, status_readable = PyStr ''ok'', battery = PyNone\<rparr> 5000"
  let ?d = "''not::a::valid name::rest''"
  let ?e = "''no name here''"
  have tw: "takeWhile is_name_char ?d = ''not''"
    and dw: "dropWhile is_name_char ?d = ''::a::valid name::rest''"
    by (simp_all add: is_name_char_def)
  have nl: "CHR 0x0A \<notin> set ?d" by simp
  have upd: "on_ui_request (clock_at 0) ?d ?s =
        ?s\<lparr>ui_messages := (ui_messages ?s)
            \<lparr>messages_named := (messages_named (ui_messages ?s))
               (''not'' \<mapsto> PyStr (dot_star ''a::valid name::rest''))\<rparr>\<rparr>"
    using on_ui_request_split [of ?d "clock_at 0" ?s] unfolding tw dw by simp
  have ds: "dot_star ''a::valid name::rest'' = ''a::valid name::rest''"
    using on_ui_request_split [of ?d "clock_at 0" ?s] nl unfolding tw dw by simp
  have a: "messages_named (ui_messages (on_ui_request (clock_at 0) ?d ?s)) ''not''
      = Some (PyStr ''a::valid name::rest'')"
    unfolding upd ds by simp
  have twe: "takeWhile is_name_char ?e = ''no''"
    and dwe: "dropWhile is_name_char ?e = '' name here''"
    by (simp_all add: is_name_char_def)
  have upde: "on_ui_request (clock_at 7) ?e ?s =
        ?s\<lparr>ui_messages := (ui_messages ?s)
            \<lparr>messages_queue := messages_queue (ui_messages ?s)
               @ [(PyStr (dot_star ?e), clock_at 7 0)]\<rparr>\<rparr>"
    using on_ui_request_split [of ?e "clock_at 7" ?s] unfolding twe dwe by simp
  have dse: "dot_star ?e = ?e"
    using on_ui_request_split [of ?e "clock_at 7" ?s] by simp
  have b: "messages_queue (ui_messages (on_ui_request (clock_at 7) ?e ?s))
      = [(PyStr ''no name here'', 7)]"
    unfolding upde dse by (simp add: UInode_init_def Messages_init_def clock_at_def)
  show ?thesis using a b by (rule conjI)
qed

subsection \<open>Concrete runs of the node\<close>

theorem frame_slot_holds_last_published_witness:
  "ui_image (ui_run id
       [Video \<lparr>msg_data = ''first'', msg_width = 5, msg_height = 1\<rparr>,
        Redraw (clock_at 1),
        Video \<lparr>msg_data = ''second'', msg_width = 3, msg_height = 2\<rparr>,
        Ui_request (clock_at 2) ''tgt.x::4'',
        Redraw (clock_at 3)]
       (UInode_init False
          \<lparr>is_online = True, status_readable = PyStr ''ok'', battery = PyNone\<rparr> 5000))
     = Some \<lparr>img_data = ''second'', img_width = 3, img_height = 2, img_swapped = False\<rparr>
   \<and> ui_image (ui_run id [Redraw (clock_at 1), Ui_request (clock_at 2) ''tgt.x::4'']
       (UInode_init False
          \<lparr>is_online = True, status_readable = PyStr ''ok'', battery = PyNone\<rparr> 5000))
     = None"
proof -
  let ?s = "UInode_init False
          \<lparr>is_online = True, status_readable = PyStr ''ok'', battery = PyNone\<rparr> 5000"
  let ?es = "[Video \<lparr>msg_data = ''first'', msg_width = 5, msg_height = 1\<rparr>,
        Redraw (clock_at 1),
        Video \<lparr>msg_data = ''second'', msg_width = 3, msg_height = 2\<rparr>,
        Ui_request (clock_at 2) ''tgt.x::4'',
        Redraw (clock_at 3)]"
  let ?fs = "[Redraw (clock_at 1), Ui_request (clock_at 2) ''tgt.x::4'']"
  have p: "published ?es =
      [\<lparr>msg_data = ''first'', msg_width = 5, msg_height = 1\<rparr>,
       \<lparr>msg_data = ''second'', msg_width = 3, msg_height = 2\<rparr>]"
    by simp
  have sw: "\<not> swap_red_blue ?s" by (simp add: UInode_init_def)
  have "ui_image (ui_run id ?es ?s) =
        Some (let d = last (published ?es);
                  image = QImage_RGB888 (msg_data d) (msg_width d) (msg_height d)
              in if swap_red_blue ?s then rgbSwapped image else image)"
    using frame_slot_holds_last_published [where es = "?es" and s = "?s" and rnd = id] p by simp
  then have 1: "ui_image (ui_run id ?es ?s)
      = Some \<lparr>img_data = ''second'', img_width = 3, img_height = 2, img_swapped = False\<rparr>"
    unfolding p using sw by (simp add: QImage_RGB888_def)
  have q: "published ?fs = []" by simp
  have 2: "ui_image (ui_run id ?fs ?s) = None"
    using frame_slot_holds_last_published [where es = "?fs" and swap = False
        and c = "\<lparr>is_online = True, status_readable = PyStr ''ok'', battery = PyNone\<rparr>"
        and t = 5000 and rnd = id] q
    by blast
  show ?thesis using 1 2 by (rule conjI)
qed

theorem redraw_placeholder_witness:
  "(\<exists>s' out. on_redraw id (clock_at 1)
        (on_video_update \<lparr>msg_data = ''frame'', msg_width = 5, msg_height = 1\<rparr>
           (UInode_init False
              \<lparr>is_online = False, status_readable = PyStr ''?'', battery = PyNone\<rparr> 5000))
        = Inr (s', out)
      \<and> out_pixmap out = Filled 640 360 (50, 50, 50))
   \<and> (\<exists>s' out. on_redraw id (clock_at 1)
        (ui_run id [Ui_request (clock_at 0) ''hello'']
           (UInode_init False
              \<lparr>is_online = True, status_readable = PyStr ''ok'', battery = PyNone\<rparr> 5000))
        = Inr (s', out)
      \<and> out_pixmap out = Filled 640 360 (50, 50, 50))
   \<and> (\<exists>s' out. on_redraw id (clock_at 1)
        (on_video_update \<lparr>msg_data = ''frame'', msg_width = 5, msg_height = 1\<rparr>
           (UInode_init False
              \<lparr>is_online = True, status_readable = PyStr ''ok'', battery = PyNone\<rparr> 5000))
        = Inr (s', out)
      \<and> out_pixmap out = FromImage
            \<lparr>img_data = ''frame'', img_width = 5, img_height = 1, img_swapped = False\<rparr>)"
proof -
  let ?off = "\<lparr>is_online = False, status_readable = PyStr ''?'', battery = PyNone\<rparr>"
  let ?on = "\<lparr>is_online = True, status_readable = PyStr ''ok'', battery = PyNone\<rparr>"
  let ?d = "\<lparr>msg_data = ''frame'', msg_width = 5, msg_height = 1\<rparr>"
  let ?s = "on_video_update ?d (UInode_init False ?off 5000)"
  let ?t = "on_video_update ?d (UInode_init False ?on 5000)"
  have c: "controller ?s = Some ?off" by (simp add: on_video_update_def UInode_init_def Let_def)
  have off: "\<not> is_online ?off" by simp
  have 1: "\<exists>s' out. on_redraw id (clock_at 1) ?s = Inr (s', out)
      \<and> out_pixmap out = Filled 640 360 (50, 50, 50)"
    using redraw_placeholder [where s = "?s" and c = "?off" and clk = "clock_at 1" and rnd = id] c off
    by blast
  have p: "published [Ui_request (clock_at 0) ''hello''] = []" by simp
  have 2: "\<exists>s' out. on_redraw id (clock_at 1)
        (ui_run id [Ui_request (clock_at 0) ''hello''] (UInode_init False ?on 5000)) = Inr (s', out)
      \<and> out_pixmap out = Filled 640 360 (50, 50, 50)"
    using redraw_placeholder [where clk = "clock_at 1" and es = "[Ui_request (clock_at 0) ''hello'']"
        and swap = False and ?c0.0 = "?on" and t = 5000 and rnd = id] p by blast
  have c': "controller ?t = Some ?on" by (simp add: on_video_update_def UInode_init_def Let_def)
  have i: "ui_image ?t
      = Some \<lparr>img_data = ''frame'', img_width = 5, img_height = 1, img_swapped = False\<rparr>"
    by (simp add: on_video_update_def UInode_init_def Let_def QImage_RGB888_def)
  have on: "is_online ?on" by simp
  have 3: "\<exists>s' out. on_redraw id (clock_at 1) ?t = Inr (s', out)
      \<and> out_pixmap out = FromImage
            \<lparr>img_data = ''frame'', img_width = 5, img_height = 1, img_swapped = False\<rparr>"
    using redraw_placeholder [where s = "?t" and c = "?on" and clk = "clock_at 1" and rnd = id] c' i on
    by blast
  show ?thesis using 1 2 3 by blast
qed

theorem render_layout_a_gap_bc_witness:
  "snd (render id (clock_at 0) 640 360
      (message_put (clock_at 0) (PyStr ''1'') (Some ''a'')
         (Messages_init 5000 [Single ''a'', Blank, Group [''b'', ''c'']])))
     = [DrawText 32 18 (PyStr ''a: 1''), DrawText 32 43 (PyStr ''b: -''),
        DrawText 32 58 (PyStr ''c: -'')]
   \<and> snd (render id (clock_at 0) 640 20
      (message_put (clock_at 0) (PyStr ''1'') (Some ''a'')
         (Messages_init 5000 [Single ''a'', Blank, Group [''b'', ''c'']])))
     = [DrawText 32 1 (PyStr ''a: 1''), DrawText 282 6 (PyStr ''b: -''),
        DrawText 282 21 (PyStr ''c: -'')]"
proof -
  let ?s = "message_put (clock_at 0) (PyStr ''1'') (Some ''a'')
         (Messages_init 5000 [Single ''a'', Blank, Group [''b'', ''c'']])"
  have st: "message_structure ?s = [Single ''a'', Blank, Group [''b'', ''c'']]"
    by (simp add: message_put_def messages_put_def Messages_init_def)
  have q: "messages_queue (clean_queue id (clock_at 0) ?s) = []"
    by (simp add: clean_queue_def message_put_def messages_put_def Messages_init_def)
  have n: "named_value (messages_named ?s) ''a'' = PyStr ''1''"
    "named_value (messages_named ?s) ''b'' = PyStr ''-''"
    "named_value (messages_named ?s) ''c'' = PyStr ''-''"
    by (simp_all add: named_value_def message_put_def messages_put_def Messages_init_def)
  have g: "py_int (of_int 640 * (5 / 100)) = 32" "top_of 360 = 18" "bottom_of 360 = 324"
    "top_of 20 = 1" "bottom_of 20 = 18"
    by (simp_all add: py_int_def top_of_def bottom_of_def)
  have 1: "snd (render id (clock_at 0) 640 360 ?s)
     = [DrawText 32 18 (PyStr ''a: 1''), DrawText 32 43 (PyStr ''b: -''),
        DrawText 32 58 (PyStr ''c: -'')]"
    using render_layout_a_gap_bc [OF st, where width = 640 and height = 360 and clk = "clock_at 0"
        and rnd = id]
    unfolding Let_def q n g by (simp add: format_row_def column_width_def)
  have 2: "snd (render id (clock_at 0) 640 20 ?s)
     = [DrawText 32 1 (PyStr ''a: 1''), DrawText 282 6 (PyStr ''b: -''),
        DrawText 282 21 (PyStr ''c: -'')]"
    using render_layout_a_gap_bc [OF st, where width = 640 and height = 20 and clk = "clock_at 0"
        and rnd = id]
    unfolding Let_def q n g by (simp add: format_row_def column_width_def)
  show ?thesis using 1 2 by (rule conjI)
qed

end
